theory Spec2Isabelle
  imports Complex_Main
begin

section \<open>Column labels (app.py, lines 55-65)\<close>

text \<open>
  A column label of the downloaded frame is either a plain string or a tuple of
  string sub-labels (a MultiIndex level pair such as \<open>('Close', 'TCS.NS')\<close>).
  Labels are taken to be ASCII strings, one \<open>char\<close> per character.
\<close>

datatype colkey = Flat string | Composite "string list"

text \<open>The ways the script stops early: each is a message shown instead of a result.\<close>

datatype 'e error =
    CloseColumnNotFound    \<comment> \<open>line 63: error, no label contains Close\<close>
  | NotEnoughDataPoints    \<comment> \<open>line 112: warning, fewer than two rows\<close>
  | ProphetModelFailed 'e  \<comment> \<open>line 144: error, carries the exception\<close>

text \<open>Python's \<open>sep.join(parts)\<close>.\<close>

fun join :: "string \<Rightarrow> string list \<Rightarrow> string" where
  "join sep [] = []"
| "join sep [x] = x"
| "join sep (x # y # ys) = x @ sep @ join sep (y # ys)"

text \<open>
  Python's \<open>str.isspace\<close> on one ASCII character: tab, line feed, vertical tab,
  form feed, carriage return, the four separators 28 to 31, and the space.
\<close>

definition isspace :: "char \<Rightarrow> bool" where
  "isspace c = (let n = (of_char c :: nat) in (9 \<le> n \<and> n \<le> 13) \<or> (28 \<le> n \<and> n \<le> 32))"

text \<open>Python's \<open>s.strip()\<close>: leading and trailing whitespace removed.\<close>

definition strip :: "string \<Rightarrow> string" where
  "strip s = rev (dropWhile isspace (rev (dropWhile isspace s)))"

text \<open>
  Line 56: \<open>'_'.join(col).strip() if isinstance(col, tuple) else col\<close>.
\<close>

fun normalize_key :: "colkey \<Rightarrow> colkey" where
  "normalize_key (Composite col) = Flat (strip (join ''_'' col))"
| "normalize_key (Flat col) = Flat col"

text \<open>
  The wording of the specification for the same step: only the non-empty
  sub-labels are joined.  Kept apart from \<open>normalize_key\<close> for comparison.
\<close>

fun spec_normalize_key :: "colkey \<Rightarrow> colkey" where
  "spec_normalize_key (Composite col) = Flat (strip (join ''_'' (filter (\<lambda>s. s \<noteq> []) col)))"
| "spec_normalize_key (Flat col) = Flat col"

fun is_flat :: "colkey \<Rightarrow> bool" where
  "is_flat (Flat s) = True"
| "is_flat (Composite ls) = False"

text \<open>
  The frame: its column labels, its index (one entry per row) and, for every
  column, the cells of that column from the first row to the last.
\<close>

record ('d, 'v) frame =
  columns :: "colkey list"
  index :: "'d list"
  cells :: "'v list list"

text \<open>Lines 55-58: the labels are replaced in place, nothing else is touched.\<close>

definition schema_normalizer :: "('d, 'v) frame \<Rightarrow> ('d, 'v) frame" where
  "schema_normalizer data = data\<lparr>columns := map normalize_key (columns data)\<rparr>"

text \<open>Python's \<open>sub in s\<close> on strings: \<open>sub\<close> occurs in \<open>s\<close> as a contiguous run.\<close>

fun contains :: "string \<Rightarrow> string \<Rightarrow> bool" where
  "contains sub [] = (sub = [])"
| "contains sub (c # cs) = (take (length sub) (c # cs) = sub \<or> contains sub cs)"

text \<open>
  Line 61: \<open>'Close' in col\<close>.  On a string it is the substring test; on a tuple
  Python tests whether one of the elements equals \<open>'Close'\<close>.
\<close>

fun close_in :: "colkey \<Rightarrow> bool" where
  "close_in (Flat s) = contains ''Close'' s"
| "close_in (Composite ls) = (''Close'' \<in> set ls)"

definition close_cols :: "colkey list \<Rightarrow> colkey list" where
  "close_cols cols = filter close_in cols"

text \<open>Lines 62-65: the first matching label, or the error message.\<close>

definition column_resolver :: "colkey list \<Rightarrow> 'e error + colkey" where
  "column_resolver cols =
     (case close_cols cols of [] \<Rightarrow> Inl CloseColumnNotFound | close_col # _ \<Rightarrow> Inr close_col)"

section \<open>Cell values\<close>

text \<open>
  A float cell: a finite number, one of the two infinities, or NaN.  A finite
  float is represented by the real number it denotes.  Comparing two floats is
  exact; adding and dividing them is not, and is never written out here: where
  the script does float arithmetic, the operation is a parameter.
\<close>

datatype fl = Fin real | PosInf | NegInf | NaN

fun is_finite :: "fl \<Rightarrow> bool" where
  "is_finite (Fin v) = True"
| "is_finite PosInf = False"
| "is_finite NegInf = False"
| "is_finite NaN = False"

text \<open>A timestamp counts nanoseconds; \<open>None\<close> in a datetime column is NaT.\<close>

type_synonym timestamp = int

text \<open>
  Before coercion a cell of column \<open>ds\<close> is a timestamp, NaT, or some other
  object; a cell of column \<open>y\<close> is a float or some other object.
\<close>

datatype 'a dscell = Stamp timestamp | NaT | DsRaw 'a

datatype 'b ycell = Num fl | YRaw 'b

section \<open>Series validation (app.py, lines 107-109)\<close>

text \<open>
  \<open>pd.to_datetime(..., errors='coerce')\<close> on one cell.  How pandas reads a
  non-datetime object is the parameter \<open>parse_date\<close>; what does not parse
  becomes NaT.
\<close>

fun to_datetime :: "('a \<Rightarrow> timestamp option) \<Rightarrow> 'a dscell \<Rightarrow> timestamp option" where
  "to_datetime parse_date (Stamp t) = Some t"
| "to_datetime parse_date NaT = None"
| "to_datetime parse_date (DsRaw r) = parse_date r"

text \<open>
  \<open>pd.to_numeric(..., errors='coerce')\<close> on one cell.  How pandas reads a
  non-float object is the parameter \<open>parse_num\<close>; what does not parse becomes
  NaN.
\<close>

fun to_numeric :: "('b \<Rightarrow> fl option) \<Rightarrow> 'b ycell \<Rightarrow> fl" where
  "to_numeric parse_num (Num x) = x"
| "to_numeric parse_num (YRaw r) = (case parse_num r of Some x \<Rightarrow> x | None \<Rightarrow> NaN)"

text \<open>\<open>replace([np.inf, -np.inf], np.nan)\<close> on one float cell.\<close>

fun replace_inf :: "fl \<Rightarrow> fl" where
  "replace_inf PosInf = NaN"
| "replace_inf NegInf = NaN"
| "replace_inf x = x"

text \<open>\<open>dropna(subset=['ds', 'y'])\<close>: a row goes when either cell is missing.\<close>

definition dropna :: "(timestamp option \<times> fl) list \<Rightarrow> (timestamp option \<times> fl) list" where
  "dropna df = filter (\<lambda>(ds, y). ds \<noteq> None \<and> y \<noteq> NaN) df"

text \<open>
  The frame \<open>df\<close> is the list of its rows, each the pair of its \<open>ds\<close> and \<open>y\<close>
  cells.  Each assignment of lines 107-109 is one step.
\<close>

definition series_validator ::
  "('a \<Rightarrow> timestamp option) \<Rightarrow> ('b \<Rightarrow> fl option) \<Rightarrow> ('a dscell \<times> 'b ycell) list
     \<Rightarrow> (timestamp option \<times> fl) list" where
  "series_validator parse_date parse_num df =
     (let df1 = map (\<lambda>(ds, y). (to_datetime parse_date ds, y)) df;
          df2 = map (\<lambda>(ds, y). (ds, to_numeric parse_num y)) df1;
          df3 = map (\<lambda>(ds, y). (ds, replace_inf y)) df2
      in dropna df3)"

text \<open>A validated frame read again as a frame of cells still to be coerced.\<close>

fun as_cells :: "timestamp option \<times> fl \<Rightarrow> 'a dscell \<times> 'b ycell" where
  "as_cells (Some t, y) = (Stamp t, Num y)"
| "as_cells (None, y) = (NaT, Num y)"

text \<open>Every date valid and every value finite.\<close>

definition validated :: "(timestamp option \<times> fl) list \<Rightarrow> bool" where
  "validated df = list_all (\<lambda>(ds, y). ds \<noteq> None \<and> is_finite y) df"

section \<open>Summary statistics (app.py, lines 87-89)\<close>

text \<open>
  pandas reductions skip NaN cells and nothing else (\<open>skipna=True\<close>); on a
  column with no other cell they return NaN.  Infinite cells take part.
\<close>

fun fl_max :: "fl \<Rightarrow> fl \<Rightarrow> fl" where
  "fl_max NaN y = NaN"
| "fl_max x NaN = NaN"
| "fl_max PosInf y = PosInf"
| "fl_max x PosInf = PosInf"
| "fl_max NegInf y = y"
| "fl_max x NegInf = x"
| "fl_max (Fin a) (Fin b) = Fin (max a b)"

fun fl_min :: "fl \<Rightarrow> fl \<Rightarrow> fl" where
  "fl_min NaN y = NaN"
| "fl_min x NaN = NaN"
| "fl_min NegInf y = NegInf"
| "fl_min x NegInf = NegInf"
| "fl_min PosInf y = y"
| "fl_min x PosInf = x"
| "fl_min (Fin a) (Fin b) = Fin (min a b)"

definition notna :: "fl list \<Rightarrow> fl list" where
  "notna xs = filter (\<lambda>x. x \<noteq> NaN) xs"

text \<open>
  \<open>Series.mean()\<close>: the float64 sum of the cells that are not NaN, divided
  in float64 by their count.  Both operations round and can overflow, and the
  order in which the library adds the cells is its own; they are the parameters
  \<open>nansum\<close> (the sum the library forms of a column, NaN cells skipped) and
  \<open>fdiv\<close> (a float divided by a count).
\<close>

definition series_mean :: "(fl list \<Rightarrow> fl) \<Rightarrow> (fl \<Rightarrow> nat \<Rightarrow> fl) \<Rightarrow> fl list \<Rightarrow> fl" where
  "series_mean nansum fdiv xs =
     (let count = length (notna xs)
      in if count = 0 then NaN else fdiv (nansum xs) count)"

text \<open>\<open>Series.max()\<close> and \<open>Series.min()\<close>.\<close>

definition series_max :: "fl list \<Rightarrow> fl" where
  "series_max xs = (case notna xs of [] \<Rightarrow> NaN | v # vs \<Rightarrow> foldl fl_max v vs)"

definition series_min :: "fl list \<Rightarrow> fl" where
  "series_min xs = (case notna xs of [] \<Rightarrow> NaN | v # vs \<Rightarrow> foldl fl_min v vs)"

record summary =
  avg_price :: fl
  max_price :: fl
  min_price :: fl

text \<open>
  Lines 87-89.  The argument is \<open>data[close_col]\<close>, the selected column of the
  downloaded frame as it is before lines 107-109 run.
\<close>

definition summary_statistics ::
  "(fl list \<Rightarrow> fl) \<Rightarrow> (fl \<Rightarrow> nat \<Rightarrow> fl) \<Rightarrow> fl list \<Rightarrow> summary" where
  "summary_statistics nansum fdiv close =
     \<lparr>avg_price = series_mean nansum fdiv close,
      max_price = series_max close,
      min_price = series_min close\<rparr>"

text \<open>
  The order of floats, for stating what the maximum and the minimum are: NaN is
  not comparable, minus infinity is below and plus infinity above every other
  value.
\<close>

fun fl_le :: "fl \<Rightarrow> fl \<Rightarrow> bool" where
  "fl_le NaN y = False"
| "fl_le x NaN = False"
| "fl_le NegInf y = True"
| "fl_le x PosInf = True"
| "fl_le (Fin a) (Fin b) = (a \<le> b)"
| "fl_le x y = False"

text \<open>The finite values of a column, in order.\<close>

fun finite_values :: "fl list \<Rightarrow> real list" where
  "finite_values [] = []"
| "finite_values (Fin v # xs) = v # finite_values xs"
| "finite_values (x # xs) = finite_values xs"

fun is_inf :: "fl \<Rightarrow> bool" where
  "is_inf PosInf = True"
| "is_inf NegInf = True"
| "is_inf x = False"

section \<open>Forecasting (app.py, lines 111-119)\<close>

record forecast_row =
  ds :: timestamp
  yhat :: fl
  yhat_lower :: fl
  yhat_upper :: fl

text \<open>What the library can raise inside the \<open>try\<close> block of line 101.\<close>

datatype 'x exn = NoHistory | FitFailed 'x

text \<open>
  Modelled from the spec: Prophet keeps, when it fits, the dates of the frame
  (library code that is not under src/): the distinct \<open>ds\<close> values in
  ascending order.
\<close>

definition history_dates :: "(timestamp option \<times> fl) list \<Rightarrow> timestamp list" where
  "history_dates df = sort (remdups (List.map_filter fst df))"

definition one_day :: int where
  "one_day = 86400000000000"

text \<open>
  Modelled from the spec: Prophet's \<open>make_future_dataframe\<close> is library code
  that is not under src/.  With the defaults the script leaves in place (daily
  steps, history included) it takes \<open>periods + 1\<close> daily dates starting at the
  last history date, drops those not after it, keeps at most \<open>periods\<close> of them
  and returns the history followed by them, which is the range that section 4.5
  of the specification gives.  Without history it raises.
\<close>

definition make_future_dataframe :: "timestamp list \<Rightarrow> nat \<Rightarrow> 'x exn + timestamp list" where
  "make_future_dataframe history periods =
     (case history of
        [] \<Rightarrow> Inl NoHistory
      | h # hs \<Rightarrow>
          (let last_date = fold max hs h;
               dates = map (\<lambda>k. last_date + int k * one_day) [0..<periods + 1];
               dates = filter (\<lambda>d. d > last_date) dates;
               dates = take periods dates
           in Inr (history @ dates)))"

text \<open>
  Modelled from the spec: Prophet's \<open>predict\<close> is library code that is not
  under src/.  It orders the frame by date and returns one row per date; the
  three numbers of row \<open>i\<close> come from the fitted model, the parameter
  \<open>estimate\<close>, which may look at the whole frame.
\<close>

definition predict ::
  "('m \<Rightarrow> timestamp list \<Rightarrow> nat \<Rightarrow> fl \<times> fl \<times> fl) \<Rightarrow> 'm \<Rightarrow> timestamp list \<Rightarrow> forecast_row list" where
  "predict estimate model future =
     (let dates = sort future
      in map (\<lambda>i. case estimate model dates i of
                     (y, lo, hi) \<Rightarrow> \<lparr>ds = dates ! i, yhat = y, yhat_lower = lo, yhat_upper = hi\<rparr>)
           [0..<length dates])"

text \<open>
  Lines 111-119.  \<open>fit\<close> stands for \<open>Prophet().fit\<close>: it returns the fitted
  model or raises.  An exception raised in the block is caught at line 143 and
  shown at line 144.
\<close>

definition forecaster ::
  "((timestamp option \<times> fl) list \<Rightarrow> 'x + 'm) \<Rightarrow> ('m \<Rightarrow> timestamp list \<Rightarrow> nat \<Rightarrow> fl \<times> fl \<times> fl)
     \<Rightarrow> (timestamp option \<times> fl) list \<Rightarrow> nat \<Rightarrow> 'x exn error + forecast_row list" where
  "forecaster fit estimate df forecast_period =
     (if length df < 2 then Inl NotEnoughDataPoints
      else
        (case fit df of
           Inl e \<Rightarrow> Inl (ProphetModelFailed (FitFailed e))
         | Inr model \<Rightarrow>
             (case make_future_dataframe (history_dates df) forecast_period of
                Inl e \<Rightarrow> Inl (ProphetModelFailed e)
              | Inr future \<Rightarrow> Inr (predict estimate model future))))"

section \<open>Example inputs\<close>

text \<open>Two labels that flatten to the same name.\<close>

definition colliding :: "(int, fl) frame" where
  "colliding = \<lparr>columns = [Composite [''Close'', ''A''], Flat ''Close_A''], index = [0],
      cells = [[Fin 1], [Fin 2]]\<rparr>"

definition one_column :: "(int, fl) frame" where
  "one_column = \<lparr>columns = [Composite [''Close'', ''TCS.NS'']], index = [0, 1],
      cells = [[Fin 1, Fin 2]]\<rparr>"

text \<open>
  Three rows dated 2024-01-01, 2024-01-02 and 2024-01-03, the second without a
  value; and a frame with one row of every kind that validation meets.
\<close>

definition scenario :: "(string dscell \<times> string ycell) list" where
  "scenario = [(Stamp 1704067200000000000, Num (Fin 100)),
               (Stamp 1704153600000000000, Num NaN),
               (Stamp 1704240000000000000, Num (Fin 102))]"

definition messy :: "(string dscell \<times> string ycell) list" where
  "messy = [(Stamp 1, YRaw ''7''), (DsRaw ''soon'', Num (Fin 2)), (Stamp 3, Num PosInf),
            (NaT, Num (Fin 4)), (Stamp 5, YRaw ''n/a''), (Stamp 6, Num NegInf), (DsRaw ''day 7'', Num (Fin 8))]"

definition read_date :: "string \<Rightarrow> timestamp option" where
  "read_date s = (if s = ''day 7'' then Some 7 else None)"

definition read_num :: "string \<Rightarrow> fl option" where
  "read_num s = (if s = ''7'' then Some (Fin 7) else None)"

definition no_parse :: "string \<Rightarrow> 'a option" where
  "no_parse s = None"

text \<open>
  An instance of the two arithmetic parameters, for the examples only; it is
  not a model of float64 arithmetic.  The examples use whole numbers of small
  size, on which float64 addition and the divisions made are exact, and an
  infinite cell, which makes the float64 sum infinite.
\<close>

fun whole_add :: "fl \<Rightarrow> fl \<Rightarrow> fl" where
  "whole_add NaN y = NaN"
| "whole_add x NaN = NaN"
| "whole_add PosInf NegInf = NaN"
| "whole_add NegInf PosInf = NaN"
| "whole_add PosInf y = PosInf"
| "whole_add x PosInf = PosInf"
| "whole_add NegInf y = NegInf"
| "whole_add x NegInf = NegInf"
| "whole_add (Fin a) (Fin b) = Fin (a + b)"

definition whole_sum :: "fl list \<Rightarrow> fl" where
  "whole_sum xs = foldl whole_add (Fin 0) (notna xs)"

fun whole_div :: "fl \<Rightarrow> nat \<Rightarrow> fl" where
  "whole_div (Fin a) n = Fin (a / real n)"
| "whole_div x n = x"

text \<open>A fit that always succeeds, a model that always answers the same.\<close>

definition always_fits :: "(timestamp option \<times> fl) list \<Rightarrow> unit + unit" where
  "always_fits df = Inr ()"

definition flat_estimate :: "unit \<Rightarrow> timestamp list \<Rightarrow> nat \<Rightarrow> fl \<times> fl \<times> fl" where
  "flat_estimate m dates i = (Fin 100, Fin 90, Fin 110)"

definition two_days :: "(timestamp option \<times> fl) list" where
  "two_days = [(Some 0, Fin 100), (Some 86400000000000, Fin 102)]"

section \<open>Column resolution\<close>

lemma contains_iff: "contains sub s \<longleftrightarrow> (\<exists>pre post. s = pre @ sub @ post)"
proof (induction s)
  case Nil
  show ?case by simp
next
  case (Cons c cs)
  have pre: "take (length sub) (c # cs) = sub \<longleftrightarrow> (\<exists>post. c # cs = sub @ post)"
  proof
    assume "take (length sub) (c # cs) = sub"
    then have "c # cs = sub @ drop (length sub) (c # cs)"
      by (metis append_take_drop_id)
    then show "\<exists>post. c # cs = sub @ post" ..
  next
    assume "\<exists>post. c # cs = sub @ post"
    then obtain post where "c # cs = sub @ post" ..
    then show "take (length sub) (c # cs) = sub" by simp
  qed
  have split: "(\<exists>pre post. c # cs = pre @ sub @ post) \<longleftrightarrow>
      (\<exists>post. c # cs = sub @ post) \<or> (\<exists>pre post. cs = pre @ sub @ post)"
  proof
    assume "\<exists>pre post. c # cs = pre @ sub @ post"
    then obtain pre post where e: "c # cs = pre @ sub @ post" by blast
    show "(\<exists>post. c # cs = sub @ post) \<or> (\<exists>pre post. cs = pre @ sub @ post)"
    proof (cases pre)
      case Nil
      with e show ?thesis by auto
    next
      case (Cons p ps)
      with e have "cs = ps @ sub @ post" by simp
      then show ?thesis by blast
    qed
  next
    assume "(\<exists>post. c # cs = sub @ post) \<or> (\<exists>pre post. cs = pre @ sub @ post)"
    then show "\<exists>pre post. c # cs = pre @ sub @ post"
    proof
      assume "\<exists>post. c # cs = sub @ post"
      then obtain post where "c # cs = [] @ sub @ post" by auto
      then show ?thesis by blast
    next
      assume "\<exists>pre post. cs = pre @ sub @ post"
      then obtain pre post where "cs = pre @ sub @ post" by blast
      then have "c # cs = (c # pre) @ sub @ post" by simp
      then show ?thesis by blast
    qed
  qed
  show ?case using Cons.IH pre split by simp
qed

lemma close_cols_none: "(\<forall>c\<in>set cols. \<not> close_in c) \<Longrightarrow> close_cols cols = []"
  by (simp add: close_cols_def)

lemma close_cols_first:
  "close_in k \<Longrightarrow> (\<forall>c\<in>set pre. \<not> close_in c) \<Longrightarrow> close_cols (pre @ k # post) = k # close_cols post"
  by (simp add: close_cols_def)

text \<open>
  Claim C2.  The resolver scans the labels in their order and returns the first
  one in which \<open>Close\<close> occurs as a contiguous, case-sensitive run of
  characters; when no label has it, the result is the error of line 63.  It is a
  function of the label list, so the same list gives the same answer.  For the
  labels Open, High, Low, Close_AAPL, Volume it returns Close_AAPL.
\<close>

theorem column_resolver_first_match:
  "((\<forall>c\<in>set cols. \<not> close_in c) \<longrightarrow> column_resolver cols = (Inl CloseColumnNotFound :: 'e error + colkey)) \<and>
   (\<forall>pre k post. cols = pre @ k # post \<and> close_in k \<and> (\<forall>c\<in>set pre. \<not> close_in c)
        \<longrightarrow> column_resolver cols = (Inr k :: 'e error + colkey)) \<and>
   (column_resolver cols :: 'e error + colkey) =
      (case List.find close_in cols of None \<Rightarrow> Inl CloseColumnNotFound | Some k \<Rightarrow> Inr k) \<and>
   (\<forall>s. close_in (Flat s) \<longleftrightarrow> (\<exists>a b. s = a @ ''Close'' @ b)) \<and>
   column_resolver [Flat ''Open'', Flat ''High'', Flat ''Low'', Flat ''Close_AAPL'', Flat ''Volume'']
      = (Inr (Flat ''Close_AAPL'') :: 'e error + colkey)"
proof (intro conjI allI impI)
  assume "\<forall>c\<in>set cols. \<not> close_in c"
  then show "column_resolver cols = (Inl CloseColumnNotFound :: 'e error + colkey)"
    by (simp add: column_resolver_def close_cols_none)
next
  fix pre k post
  assume "cols = pre @ k # post \<and> close_in k \<and> (\<forall>c\<in>set pre. \<not> close_in c)"
  then show "column_resolver cols = (Inr k :: 'e error + colkey)"
    by (simp add: column_resolver_def close_cols_first)
next
  show "(column_resolver cols :: 'e error + colkey) =
      (case List.find close_in cols of None \<Rightarrow> Inl CloseColumnNotFound | Some k \<Rightarrow> Inr k)"
    by (induction cols) (simp_all add: column_resolver_def close_cols_def)
next
  fix s
  show "close_in (Flat s) \<longleftrightarrow> (\<exists>a b. s = a @ ''Close'' @ b)"
    by (simp only: close_in.simps contains_iff)
next
  show "column_resolver [Flat ''Open'', Flat ''High'', Flat ''Low'', Flat ''Close_AAPL'', Flat ''Volume'']
      = (Inr (Flat ''Close_AAPL'') :: 'e error + colkey)"
    by (simp add: column_resolver_def close_cols_def)
qed

theorem column_resolver_first_match_witness:
  "column_resolver [Flat ''close'', Flat ''Adj Close'', Flat ''Close''] = (Inr (Flat ''Adj Close'') :: unit error + colkey) \<and>
   column_resolver [Flat ''Open'', Flat ''close''] = (Inl CloseColumnNotFound :: unit error + colkey)"
proof
  have a: "[Flat ''close'', Flat ''Adj Close'', Flat ''Close''] = [Flat ''close''] @ Flat ''Adj Close'' # [Flat ''Close'']
        \<and> close_in (Flat ''Adj Close'') \<and> (\<forall>c\<in>set [Flat ''close'']. \<not> close_in c)"
    by simp
  from column_resolver_first_match [of "[Flat ''close'', Flat ''Adj Close'', Flat ''Close'']", where 'e = unit]
  have "\<forall>pre k post. [Flat ''close'', Flat ''Adj Close'', Flat ''Close''] = pre @ k # post \<and> close_in k \<and> (\<forall>c\<in>set pre. \<not> close_in c)
        \<longrightarrow> column_resolver [Flat ''close'', Flat ''Adj Close'', Flat ''Close''] = (Inr k :: unit error + colkey)"
    by blast
  with a show "column_resolver [Flat ''close'', Flat ''Adj Close'', Flat ''Close''] = (Inr (Flat ''Adj Close'') :: unit error + colkey)"
    by blast
next
  have b: "\<forall>c\<in>set [Flat ''Open'', Flat ''close'']. \<not> close_in c" by simp
  from column_resolver_first_match [of "[Flat ''Open'', Flat ''close'']", where 'e = unit] b
  show "column_resolver [Flat ''Open'', Flat ''close''] = (Inl CloseColumnNotFound :: unit error + colkey)"
    by blast
qed

section \<open>Label flattening\<close>

lemma rev_split_while:
  "xs = rev (dropWhile P (rev xs)) @ rev (takeWhile P (rev xs))"
proof -
  have "rev (takeWhile P (rev xs) @ dropWhile P (rev xs)) = rev (rev xs)"
    by (simp only: takeWhile_dropWhile_id)
  then show ?thesis
    by (simp only: rev_append rev_rev_ident)
qed

lemma strip_decomp:
  "\<exists>pre post. s = pre @ strip s @ post \<and> list_all isspace pre \<and> list_all isspace post"
proof -
  define t where "t = dropWhile isspace s"
  have s: "s = takeWhile isspace s @ t"
    by (simp add: t_def)
  have t: "t = strip s @ rev (takeWhile isspace (rev t))"
    unfolding strip_def t_def by (rule rev_split_while)
  have 1: "list_all isspace (takeWhile isspace s)"
    by (simp add: list_all_iff) (meson set_takeWhileD)
  have 2: "list_all isspace (rev (takeWhile isspace (rev t)))"
    by (simp add: list_all_iff) (meson set_takeWhileD)
  from s t have "s = takeWhile isspace s @ strip s @ rev (takeWhile isspace (rev t))"
    by simp
  with 1 2 show ?thesis by blast
qed

lemma strip_ends:
  assumes "strip s \<noteq> []"
  shows "\<not> isspace (hd (strip s)) \<and> \<not> isspace (last (strip s))"
proof -
  define t where "t = dropWhile isspace s"
  have st: "strip s = rev (dropWhile isspace (rev t))"
    by (simp add: strip_def t_def)
  with assms have ne: "dropWhile isspace (rev t) \<noteq> []" by simp
  then have "\<not> isspace (hd (dropWhile isspace (rev t)))"
    by (rule hd_dropWhile)
  then have l: "\<not> isspace (last (strip s))"
    using ne by (simp add: st last_rev)
  have t: "t = strip s @ rev (takeWhile isspace (rev t))"
    unfolding st by (rule rev_split_while)
  with assms have "hd t = hd (strip s)"
    by (metis hd_append2)
  moreover from t assms have "t \<noteq> []" by auto
  then have "\<not> isspace (hd t)"
    unfolding t_def by (rule hd_dropWhile)
  ultimately show ?thesis using l by simp
qed

lemma filter_nonempty_id: "[] \<notin> set ls \<Longrightarrow> filter (\<lambda>s. s \<noteq> []) ls = ls"
  by (induction ls) auto

lemma columns_schema_normalizer:
  "columns (schema_normalizer data) = map normalize_key (columns data)"
  by (simp add: schema_normalizer_def)

lemma is_flat_normalize_key: "is_flat (normalize_key k)"
  by (cases k) simp_all

text \<open>
  Claim C4, as the code has it.  A plain label passes through unchanged.  A
  tuple label becomes the string that joins all of its sub-labels, the empty ones
  too, with an underscore, with the whitespace at both ends removed and nothing
  else.  When no sub-label is empty this is the string the specification
  describes.  No label of the normalised frame is a tuple.
\<close>

theorem normalize_key_joins_all:
  "normalize_key (Flat s) = Flat s \<and>
   (\<exists>pre body post. normalize_key (Composite ls) = Flat body \<and>
       join ''_'' ls = pre @ body @ post \<and> list_all isspace pre \<and> list_all isspace post \<and>
       (body \<noteq> [] \<longrightarrow> \<not> isspace (hd body) \<and> \<not> isspace (last body))) \<and>
   ([] \<notin> set ls \<longrightarrow> normalize_key (Composite ls) = spec_normalize_key (Composite ls)) \<and>
   list_all is_flat (columns (schema_normalizer data))"
proof (intro conjI impI)
  show "normalize_key (Flat s) = Flat s" by simp
next
  obtain pre post where "join ''_'' ls = pre @ strip (join ''_'' ls) @ post"
    "list_all isspace pre" "list_all isspace post"
    using strip_decomp [of "join ''_'' ls"] by blast
  moreover have "strip (join ''_'' ls) \<noteq> [] \<longrightarrow>
      \<not> isspace (hd (strip (join ''_'' ls))) \<and> \<not> isspace (last (strip (join ''_'' ls)))"
    using strip_ends by blast
  ultimately show "\<exists>pre body post. normalize_key (Composite ls) = Flat body \<and>
       join ''_'' ls = pre @ body @ post \<and> list_all isspace pre \<and> list_all isspace post \<and>
       (body \<noteq> [] \<longrightarrow> \<not> isspace (hd body) \<and> \<not> isspace (last body))"
    by (metis normalize_key.simps(1))
next
  assume "[] \<notin> set ls"
  then show "normalize_key (Composite ls) = spec_normalize_key (Composite ls)"
    by (simp add: filter_nonempty_id)
next
  show "list_all is_flat (columns (schema_normalizer data))"
    by (simp add: columns_schema_normalizer list_all_iff is_flat_normalize_key)
qed

theorem normalize_key_joins_all_witness:
  "normalize_key (Composite [''Close'', ''TCS.NS'']) = spec_normalize_key (Composite [''Close'', ''TCS.NS'']) \<and>
   normalize_key (Composite [''Close'', ''TCS.NS'']) = Flat ''Close_TCS.NS'' \<and>
   normalize_key (Composite ['' Adj Close'', ''X  '']) = Flat ''Adj Close_X''"
proof -
  have h: "[] \<notin> set [''Close'', ''TCS.NS'']" by simp
  from normalize_key_joins_all [of "[]" "[''Close'', ''TCS.NS'']" "\<lparr>columns = [], index = [], cells = []\<rparr>"] h
  have "normalize_key (Composite [''Close'', ''TCS.NS'']) = spec_normalize_key (Composite [''Close'', ''TCS.NS''])"
    by blast
  then show ?thesis by (simp add: strip_def isspace_def)
qed

text \<open>
  Claim C4 as written fails on a tuple with an empty sub-label: the code keeps
  the underscore that the empty sub-label brings.
\<close>

theorem normalize_key_keeps_empty_sublabels:
  "normalize_key (Composite [''Close'', '''']) = Flat ''Close_'' \<and>
   spec_normalize_key (Composite [''Close'', '''']) = Flat ''Close'' \<and>
   normalize_key (Composite [''Close'', '''']) \<noteq> spec_normalize_key (Composite [''Close'', ''''])"
  by (simp add: strip_def isspace_def)

text \<open>
  Claim C5, as the code has it.  Normalisation has no failure: it always
  returns a frame, and labels that flatten to the same name are both kept, each
  at its own position.  The resulting names are pairwise distinct exactly when
  the input labels are distinct and flattening is injective on them.
\<close>

theorem schema_normalizer_keeps_collisions:
  "(distinct (columns (schema_normalizer data)) \<longleftrightarrow>
      distinct (columns data) \<and> inj_on normalize_key (set (columns data))) \<and>
   (\<forall>i j. i < j \<and> j < length (columns data) \<and>
        normalize_key (columns data ! i) = normalize_key (columns data ! j) \<longrightarrow>
      length (columns (schema_normalizer data)) = length (columns data) \<and>
      columns (schema_normalizer data) ! i = normalize_key (columns data ! i) \<and>
      columns (schema_normalizer data) ! j = normalize_key (columns data ! i) \<and>
      \<not> distinct (columns (schema_normalizer data)))"
proof (intro conjI allI impI)
  show "distinct (columns (schema_normalizer data)) \<longleftrightarrow>
      distinct (columns data) \<and> inj_on normalize_key (set (columns data))"
    by (simp add: columns_schema_normalizer distinct_map)
next
  fix i j
  assume a: "i < j \<and> j < length (columns data) \<and>
        normalize_key (columns data ! i) = normalize_key (columns data ! j)"
  show "length (columns (schema_normalizer data)) = length (columns data)"
    by (simp add: columns_schema_normalizer)
  from a show "columns (schema_normalizer data) ! i = normalize_key (columns data ! i)"
    by (simp add: columns_schema_normalizer)
  from a show "columns (schema_normalizer data) ! j = normalize_key (columns data ! i)"
    by (simp add: columns_schema_normalizer)
  from a have "map normalize_key (columns data) ! i = map normalize_key (columns data) ! j"
    "i < length (map normalize_key (columns data))" "j < length (map normalize_key (columns data))" "i \<noteq> j"
    by simp_all
  then have "\<not> distinct (map normalize_key (columns data))"
    using nth_eq_iff_index_eq by blast
  then show "\<not> distinct (columns (schema_normalizer data))"
    by (simp add: columns_schema_normalizer)
qed

theorem schema_normalizer_keeps_collisions_witness:
  "columns (schema_normalizer colliding) = [Flat ''Close_A'', Flat ''Close_A''] \<and>
   \<not> distinct (columns (schema_normalizer colliding))"
proof -
  have h: "(0::nat) < 1 \<and> 1 < length (columns colliding) \<and>
        normalize_key (columns colliding ! 0) = normalize_key (columns colliding ! 1)"
    by (simp add: colliding_def strip_def isspace_def)
  from schema_normalizer_keeps_collisions [of colliding] h
  have "columns (schema_normalizer colliding) ! 0 = normalize_key (columns colliding ! 0) \<and>
      columns (schema_normalizer colliding) ! 1 = normalize_key (columns colliding ! 0) \<and>
      \<not> distinct (columns (schema_normalizer colliding))"
    by blast
  then show ?thesis
    by (simp add: colliding_def schema_normalizer_def strip_def isspace_def)
qed

text \<open>
  Claim C5 as written fails: two labels that flatten to \<open>Close_A\<close> give a
  frame with that name twice, and no error.
\<close>

theorem schema_normalizer_collision_counterexample:
  "schema_normalizer colliding =
     \<lparr>columns = [Flat ''Close_A'', Flat ''Close_A''], index = [0], cells = [[Fin 1], [Fin 2]]\<rparr> \<and>
   \<not> distinct (columns (schema_normalizer colliding))"
  by (simp add: colliding_def schema_normalizer_def strip_def isspace_def)

text \<open>
  Claim C10.  Normalisation rewrites the labels only: there is one output label
  per input column, at the same position, and the index and every cell of the
  frame are as they were.
\<close>

theorem schema_normalizer_frame:
  "length (columns (schema_normalizer data)) = length (columns data) \<and>
   (\<forall>i < length (columns data). columns (schema_normalizer data) ! i = normalize_key (columns data ! i)) \<and>
   index (schema_normalizer data) = index data \<and>
   cells (schema_normalizer data) = cells data"
  by (simp add: schema_normalizer_def)

theorem schema_normalizer_frame_witness:
  "columns (schema_normalizer one_column) ! 0 = Flat ''Close_TCS.NS'' \<and>
   index (schema_normalizer one_column) = [0, 1] \<and>
   cells (schema_normalizer one_column) = [[Fin 1, Fin 2]]"
proof -
  have h: "(0::nat) < length (columns one_column)" by (simp add: one_column_def)
  from schema_normalizer_frame [of one_column] h
  have "columns (schema_normalizer one_column) ! 0 = normalize_key (columns one_column ! 0) \<and>
    index (schema_normalizer one_column) = index one_column \<and>
    cells (schema_normalizer one_column) = cells one_column"
    by blast
  then show ?thesis by (simp add: one_column_def strip_def isspace_def)
qed

section \<open>Series validation\<close>

lemma replace_inf_notna: "replace_inf x \<noteq> NaN \<longleftrightarrow> is_finite x"
  by (cases x) simp_all

lemma replace_inf_finite: "is_finite x \<Longrightarrow> replace_inf x = x"
  by (cases x) simp_all

lemma series_validator_Nil: "series_validator pd pn [] = []"
  by (simp add: series_validator_def dropna_def)

lemma series_validator_Cons:
  "series_validator pd pn ((d, v) # df) =
     (if to_datetime pd d \<noteq> None \<and> is_finite (to_numeric pn v)
      then (to_datetime pd d, to_numeric pn v) # series_validator pd pn df
      else series_validator pd pn df)"
  by (simp add: series_validator_def dropna_def replace_inf_notna replace_inf_finite)

lemma series_validator_filter:
  "series_validator pd pn df =
     map (\<lambda>(d, v). (to_datetime pd d, to_numeric pn v))
       (filter (\<lambda>(d, v). to_datetime pd d \<noteq> None \<and> is_finite (to_numeric pn v)) df)"
proof (induction df)
  case Nil
  show ?case by (simp add: series_validator_Nil)
next
  case (Cons row df)
  obtain d v where row: "row = (d, v)" by (cases row)
  from Cons.IH show ?case
    unfolding row by (simp add: series_validator_Cons)
qed

lemma validated_series_validator: "validated (series_validator pd pn df)"
proof (induction df)
  case Nil
  show ?case by (simp add: series_validator_Nil validated_def)
next
  case (Cons row df)
  obtain d v where row: "row = (d, v)" by (cases row)
  from Cons.IH show ?case
    unfolding row by (simp add: series_validator_Cons validated_def)
qed

text \<open>
  Claim C1.  The validated frame holds exactly the rows whose date coerces to a
  timestamp and whose value coerces to a finite float, each with its coerced
  cells, in their original order.  A row whose date or value does not parse,
  whose value is infinite, or that misses either cell is left out; nothing is
  raised.
\<close>

theorem series_validator_keeps_valid_rows:
  "series_validator parse_date parse_num df =
     map (\<lambda>(d, v). (to_datetime parse_date d, to_numeric parse_num v))
       (filter (\<lambda>(d, v). to_datetime parse_date d \<noteq> None \<and> is_finite (to_numeric parse_num v)) df) \<and>
   validated (series_validator parse_date parse_num df)"
  by (rule conjI [OF series_validator_filter validated_series_validator])

theorem series_validator_keeps_valid_rows_witness:
  "series_validator read_date read_num scenario =
     [(Some 1704067200000000000, Fin 100), (Some 1704240000000000000, Fin 102)] \<and>
   series_validator read_date read_num messy = [(Some 1, Fin 7), (Some 7, Fin 8)]"
  using series_validator_keeps_valid_rows [of read_date read_num scenario]
    series_validator_keeps_valid_rows [of read_date read_num messy]
  by (simp add: scenario_def messy_def read_date_def read_num_def)

lemma revalidate_row:
  "d \<noteq> None \<Longrightarrow> is_finite y \<Longrightarrow>
     series_validator pd pn (as_cells (d, y) # rest) = (d, y) # series_validator pd pn rest"
  by (cases d) (simp_all add: series_validator_Cons)

lemma revalidate_validated:
  "validated df \<Longrightarrow> series_validator pd pn (map as_cells df) = df"
proof (induction df)
  case Nil
  show ?case by (simp add: series_validator_Nil)
next
  case (Cons row df)
  obtain d y where row: "row = (d, y)" by (cases row)
  from Cons.prems have "d \<noteq> None" "is_finite y" "validated df"
    by (simp_all add: row validated_def)
  with Cons.IH show ?case
    by (simp add: row revalidate_row)
qed

text \<open>
  Claim C9.  Validation is idempotent: a frame whose dates are all valid and
  whose values are all finite comes back from the four steps unchanged, row for
  row; so does every frame that validation has produced.
\<close>

theorem series_validator_idempotent:
  "(validated df \<longrightarrow> series_validator parse_date parse_num (map as_cells df) = df) \<and>
   series_validator parse_date parse_num (map as_cells (series_validator parse_date' parse_num' raw))
     = series_validator parse_date' parse_num' raw"
  using revalidate_validated validated_series_validator by blast

theorem series_validator_idempotent_witness:
  "validated [(Some 1, Fin 7), (Some 7, Fin 8)] \<and>
   series_validator read_date read_num (map as_cells [(Some 1, Fin 7), (Some 7, Fin 8)])
     = [(Some 1, Fin 7), (Some 7, Fin 8)]"
proof -
  have h: "validated [(Some 1, Fin 7), (Some 7, Fin 8)]"
    by (simp add: validated_def)
  from series_validator_idempotent [of "[(Some 1, Fin 7), (Some 7, Fin 8)]" read_date read_num] h
  have "series_validator read_date read_num (map as_cells [(Some 1, Fin 7), (Some 7, Fin 8)])
     = [(Some 1, Fin 7), (Some 7, Fin 8)]"
    by blast
  with h show ?thesis by blast
qed

section \<open>Summary statistics\<close>

lemma notna_no_inf:
  "list_all (\<lambda>x. \<not> is_inf x) xs \<Longrightarrow> notna xs = map Fin (finite_values xs)"
proof (induction xs)
  case Nil
  show ?case by (simp add: notna_def)
next
  case (Cons x xs)
  then have "notna xs = map Fin (finite_values xs)" "\<not> is_inf x" by simp_all
  then show ?case by (cases x) (simp_all add: notna_def)
qed

lemma foldl_fl_max_Fin: "foldl fl_max (Fin a) (map Fin vs) = Fin (Max (set (a # vs)))"
proof -
  have "foldl fl_max (Fin a) (map Fin vs) = Fin (fold max vs a)"
    by (induction vs arbitrary: a) (simp_all add: max.commute)
  then show ?thesis by (simp only: Max.set_eq_fold)
qed

lemma foldl_fl_min_Fin: "foldl fl_min (Fin a) (map Fin vs) = Fin (Min (set (a # vs)))"
proof -
  have "foldl fl_min (Fin a) (map Fin vs) = Fin (fold min vs a)"
    by (induction vs arbitrary: a) (simp_all add: min.commute)
  then show ?thesis by (simp only: Min.set_eq_fold)
qed

lemma series_max_finite:
  assumes "list_all (\<lambda>x. \<not> is_inf x) xs" "finite_values xs \<noteq> []"
  shows "series_max xs = Fin (Max (set (finite_values xs)))"
proof -
  obtain v vs where vs: "finite_values xs = v # vs"
    using assms(2) by (cases "finite_values xs") auto
  show ?thesis
    by (simp add: series_max_def notna_no_inf [OF assms(1)] vs foldl_fl_max_Fin)
qed

lemma series_min_finite:
  assumes "list_all (\<lambda>x. \<not> is_inf x) xs" "finite_values xs \<noteq> []"
  shows "series_min xs = Fin (Min (set (finite_values xs)))"
proof -
  obtain v vs where vs: "finite_values xs = v # vs"
    using assms(2) by (cases "finite_values xs") auto
  show ?thesis
    by (simp add: series_min_def notna_no_inf [OF assms(1)] vs foldl_fl_min_Fin)
qed

lemma fl_le_refl: "x \<noteq> NaN \<Longrightarrow> fl_le x x"
  by (cases x) simp_all

lemma fl_le_trans: "fl_le x y \<Longrightarrow> fl_le y z \<Longrightarrow> fl_le x z"
  by (cases x; cases y; cases z) simp_all

lemma fl_max_picks:
  "a \<noteq> NaN \<Longrightarrow> b \<noteq> NaN \<Longrightarrow>
     (fl_max a b = a \<or> fl_max a b = b) \<and> fl_le a (fl_max a b) \<and> fl_le b (fl_max a b)"
  by (cases a; cases b) (auto simp add: max_def)

lemma fl_min_picks:
  "a \<noteq> NaN \<Longrightarrow> b \<noteq> NaN \<Longrightarrow>
     (fl_min a b = a \<or> fl_min a b = b) \<and> fl_le (fl_min a b) a \<and> fl_le (fl_min a b) b"
  by (cases a; cases b) (auto simp add: min_def)

lemma foldl_fl_max_bound:
  "a \<noteq> NaN \<Longrightarrow> NaN \<notin> set vs \<Longrightarrow>
     foldl fl_max a vs \<in> set (a # vs) \<and> (\<forall>x\<in>set (a # vs). fl_le x (foldl fl_max a vs))"
proof (induction vs arbitrary: a)
  case Nil
  then show ?case by (simp add: fl_le_refl)
next
  case (Cons v vs)
  define b where "b = fl_max a v"
  from Cons.prems have v: "v \<noteq> NaN" and vs: "NaN \<notin> set vs" by auto
  have pick: "(b = a \<or> b = v) \<and> fl_le a b \<and> fl_le v b"
    unfolding b_def using Cons.prems(1) v by (rule fl_max_picks)
  then have "b \<noteq> NaN" using Cons.prems(1) v by auto
  from Cons.IH [OF this vs]
  have m: "foldl fl_max b vs \<in> set (b # vs)" and ub: "\<forall>x\<in>set (b # vs). fl_le x (foldl fl_max b vs)"
    by simp_all
  from ub have bm: "fl_le b (foldl fl_max b vs)" by simp
  have "fl_le a (foldl fl_max b vs)" "fl_le v (foldl fl_max b vs)"
    using pick bm by (blast intro: fl_le_trans)+
  moreover have "foldl fl_max b vs \<in> set (a # v # vs)"
    using m pick by auto
  ultimately show ?case
    using ub by (simp add: b_def)
qed

lemma foldl_fl_min_bound:
  "a \<noteq> NaN \<Longrightarrow> NaN \<notin> set vs \<Longrightarrow>
     foldl fl_min a vs \<in> set (a # vs) \<and> (\<forall>x\<in>set (a # vs). fl_le (foldl fl_min a vs) x)"
proof (induction vs arbitrary: a)
  case Nil
  then show ?case by (simp add: fl_le_refl)
next
  case (Cons v vs)
  define b where "b = fl_min a v"
  from Cons.prems have v: "v \<noteq> NaN" and vs: "NaN \<notin> set vs" by auto
  have pick: "(b = a \<or> b = v) \<and> fl_le b a \<and> fl_le b v"
    unfolding b_def using Cons.prems(1) v by (rule fl_min_picks)
  then have "b \<noteq> NaN" using Cons.prems(1) v by auto
  from Cons.IH [OF this vs]
  have m: "foldl fl_min b vs \<in> set (b # vs)" and lb: "\<forall>x\<in>set (b # vs). fl_le (foldl fl_min b vs) x"
    by simp_all
  from lb have mb: "fl_le (foldl fl_min b vs) b" by simp
  have "fl_le (foldl fl_min b vs) a" "fl_le (foldl fl_min b vs) v"
    using pick mb by (blast intro: fl_le_trans)+
  moreover have "foldl fl_min b vs \<in> set (a # v # vs)"
    using m pick by auto
  ultimately show ?case
    using lb by (simp add: b_def)
qed

lemma notna_no_NaN: "NaN \<notin> set (notna xs)"
  by (simp add: notna_def)

lemma series_max_bound:
  assumes "notna xs \<noteq> []"
  shows "series_max xs \<in> set (notna xs) \<and> (\<forall>x\<in>set (notna xs). fl_le x (series_max xs))"
proof -
  obtain v vs where n: "notna xs = v # vs"
    using assms by (cases "notna xs") auto
  have "NaN \<notin> set (v # vs)"
    using notna_no_NaN [of xs] n by simp
  then have "v \<noteq> NaN" "NaN \<notin> set vs" by auto
  then have "foldl fl_max v vs \<in> set (v # vs) \<and> (\<forall>x\<in>set (v # vs). fl_le x (foldl fl_max v vs))"
    by (rule foldl_fl_max_bound)
  then show ?thesis
    by (simp add: series_max_def n)
qed

lemma series_min_bound:
  assumes "notna xs \<noteq> []"
  shows "series_min xs \<in> set (notna xs) \<and> (\<forall>x\<in>set (notna xs). fl_le (series_min xs) x)"
proof -
  obtain v vs where n: "notna xs = v # vs"
    using assms by (cases "notna xs") auto
  have "NaN \<notin> set (v # vs)"
    using notna_no_NaN [of xs] n by simp
  then have "v \<noteq> NaN" "NaN \<notin> set vs" by auto
  then have "foldl fl_min v vs \<in> set (v # vs) \<and> (\<forall>x\<in>set (v # vs). fl_le (foldl fl_min v vs) x)"
    by (rule foldl_fl_min_bound)
  then show ?thesis
    by (simp add: series_min_def n)
qed

lemma summary_all_nan:
  assumes "notna xs = []"
  shows "summary_statistics nansum fdiv xs = \<lparr>avg_price = NaN, max_price = NaN, min_price = NaN\<rparr>"
  using assms
  by (simp add: summary_statistics_def series_mean_def series_max_def series_min_def)

lemma validator_values:
  "length idx = length xs \<Longrightarrow> list_all (\<lambda>d. to_datetime pd d \<noteq> None) idx \<Longrightarrow>
     map snd (series_validator pd pn (zip idx (map Num xs))) = map Fin (finite_values xs)"
proof (induction idx xs rule: list_induct2)
  case Nil
  show ?case by (simp add: series_validator_Nil)
next
  case (Cons d idx x xs)
  then show ?case by (cases x) (simp_all add: series_validator_Cons)
qed

text \<open>
  Claim C8, as the code has it.  The statistics are taken over the selected
  column of the downloaded frame, before validation, and only NaN cells are
  skipped.  The mean is the float64 sum of the remaining cells divided in
  float64 by their count; it rounds and can overflow, so it need not be their
  exact arithmetic mean.  The maximum and the minimum are exactly the greatest
  and the least of the remaining cells, infinite ones included; when no cell is
  infinite they are the maximum and the minimum of the finite values.  The
  finite values are the values of the validated series when every row has a
  valid date.  When the column has no cell but NaN, all three results are NaN
  and nothing fails.
\<close>

theorem summary_statistics_raw_column:
  "(notna close = [] \<longrightarrow>
      summary_statistics nansum fdiv close = \<lparr>avg_price = NaN, max_price = NaN, min_price = NaN\<rparr>) \<and>
   (notna close \<noteq> [] \<longrightarrow>
      avg_price (summary_statistics nansum fdiv close) = fdiv (nansum close) (length (notna close)) \<and>
      max_price (summary_statistics nansum fdiv close) \<in> set (notna close) \<and>
      (\<forall>x\<in>set (notna close). fl_le x (max_price (summary_statistics nansum fdiv close))) \<and>
      min_price (summary_statistics nansum fdiv close) \<in> set (notna close) \<and>
      (\<forall>x\<in>set (notna close). fl_le (min_price (summary_statistics nansum fdiv close)) x)) \<and>
   (list_all (\<lambda>x. \<not> is_inf x) close \<and> finite_values close \<noteq> [] \<longrightarrow>
      max_price (summary_statistics nansum fdiv close) = Fin (Max (set (finite_values close))) \<and>
      min_price (summary_statistics nansum fdiv close) = Fin (Min (set (finite_values close)))) \<and>
   (length idx = length close \<and> list_all (\<lambda>d. to_datetime parse_date d \<noteq> None) idx \<longrightarrow>
      map snd (series_validator parse_date parse_num (zip idx (map Num close)))
        = map Fin (finite_values close))"
proof (intro conjI impI)
  assume "notna close = []"
  then show "summary_statistics nansum fdiv close = \<lparr>avg_price = NaN, max_price = NaN, min_price = NaN\<rparr>"
    by (rule summary_all_nan)
next
  assume n: "notna close \<noteq> []"
  then show "avg_price (summary_statistics nansum fdiv close) = fdiv (nansum close) (length (notna close))"
    by (simp add: summary_statistics_def series_mean_def)
  from series_max_bound [OF n]
  show "max_price (summary_statistics nansum fdiv close) \<in> set (notna close)"
    and "\<forall>x\<in>set (notna close). fl_le x (max_price (summary_statistics nansum fdiv close))"
    by (simp_all add: summary_statistics_def)
  from series_min_bound [OF n]
  show "min_price (summary_statistics nansum fdiv close) \<in> set (notna close)"
    and "\<forall>x\<in>set (notna close). fl_le (min_price (summary_statistics nansum fdiv close)) x"
    by (simp_all add: summary_statistics_def)
next
  assume a: "list_all (\<lambda>x. \<not> is_inf x) close \<and> finite_values close \<noteq> []"
  then show "max_price (summary_statistics nansum fdiv close) = Fin (Max (set (finite_values close)))"
    by (simp add: summary_statistics_def series_max_finite)
  from a show "min_price (summary_statistics nansum fdiv close) = Fin (Min (set (finite_values close)))"
    by (simp add: summary_statistics_def series_min_finite)
next
  assume "length idx = length close \<and> list_all (\<lambda>d. to_datetime parse_date d \<noteq> None) idx"
  then show "map snd (series_validator parse_date parse_num (zip idx (map Num close)))
        = map Fin (finite_values close)"
    by (simp add: validator_values)
qed

theorem summary_statistics_raw_column_witness:
  "summary_statistics whole_sum whole_div [Fin 100, NaN, Fin 102]
     = \<lparr>avg_price = Fin 101, max_price = Fin 102, min_price = Fin 100\<rparr> \<and>
   map snd (series_validator no_parse no_parse
      (zip [Stamp 1, Stamp 2, Stamp 3] (map Num [Fin 100, NaN, Fin 102]))) = [Fin 100, Fin 102]"
proof -
  have n: "notna [Fin 100, NaN, Fin 102] \<noteq> []" by (simp add: notna_def)
  have h: "list_all (\<lambda>x. \<not> is_inf x) [Fin 100, NaN, Fin 102] \<and> finite_values [Fin 100, NaN, Fin 102] \<noteq> []"
    by simp
  have i: "length [Stamp 1, Stamp 2, Stamp 3 :: string dscell] = length [Fin 100, NaN, Fin 102] \<and>
      list_all (\<lambda>d. to_datetime no_parse d \<noteq> None) [Stamp 1, Stamp 2, Stamp 3 :: string dscell]"
    by simp
  from summary_statistics_raw_column [of "[Fin 100, NaN, Fin 102]" whole_sum whole_div
      "[Stamp 1, Stamp 2, Stamp 3 :: string dscell]" no_parse no_parse] n h i
  have "avg_price (summary_statistics whole_sum whole_div [Fin 100, NaN, Fin 102])
          = whole_div (whole_sum [Fin 100, NaN, Fin 102]) (length (notna [Fin 100, NaN, Fin 102])) \<and>
     max_price (summary_statistics whole_sum whole_div [Fin 100, NaN, Fin 102])
          = Fin (Max (set (finite_values [Fin 100, NaN, Fin 102]))) \<and>
     min_price (summary_statistics whole_sum whole_div [Fin 100, NaN, Fin 102])
          = Fin (Min (set (finite_values [Fin 100, NaN, Fin 102]))) \<and>
     map snd (series_validator no_parse no_parse (zip [Stamp 1, Stamp 2, Stamp 3 :: string dscell] (map Num [Fin 100, NaN, Fin 102])))
          = map Fin (finite_values [Fin 100, NaN, Fin 102])"
    by blast
  then have "avg_price (summary_statistics whole_sum whole_div [Fin 100, NaN, Fin 102]) = Fin 101 \<and>
     max_price (summary_statistics whole_sum whole_div [Fin 100, NaN, Fin 102]) = Fin 102 \<and>
     min_price (summary_statistics whole_sum whole_div [Fin 100, NaN, Fin 102]) = Fin 100 \<and>
     map snd (series_validator no_parse no_parse (zip [Stamp 1, Stamp 2, Stamp 3 :: string dscell] (map Num [Fin 100, NaN, Fin 102])))
          = [Fin 100, Fin 102]"
    by (simp add: whole_sum_def notna_def)
  then show ?thesis
    by (cases "summary_statistics whole_sum whole_div [Fin 100, NaN, Fin 102]") simp
qed

text \<open>
  Claim C8 as written fails.  On the column 100, infinity the validated series
  is 100 alone, yet the maximum shown is infinite (and so is the mean, the sum
  being infinite).  On a column whose validated series is empty the statistics
  are NaN, not an error.
\<close>

theorem summary_statistics_counterexample:
  "map snd (series_validator no_parse no_parse [(Stamp 1, Num (Fin 100)), (Stamp 2, Num PosInf)]) = [Fin 100] \<and>
   summary_statistics whole_sum whole_div [Fin 100, PosInf]
     = \<lparr>avg_price = PosInf, max_price = PosInf, min_price = Fin 100\<rparr> \<and>
   series_max [Fin 100, PosInf] \<noteq> Fin 100 \<and>
   series_validator no_parse no_parse [(Stamp 1, Num NaN)] = [] \<and>
   summary_statistics whole_sum whole_div [NaN] = \<lparr>avg_price = NaN, max_price = NaN, min_price = NaN\<rparr>"
  by (simp add: series_validator_Cons series_validator_Nil summary_statistics_def
      series_mean_def series_max_def series_min_def notna_def whole_sum_def)

section \<open>Forecasting\<close>

lemma summary_one_cell:
  "max_price (summary_statistics nansum fdiv [Fin v]) = Fin v \<and>
   min_price (summary_statistics nansum fdiv [Fin v]) = Fin v \<and>
   avg_price (summary_statistics nansum fdiv [Fin v]) = fdiv (nansum [Fin v]) 1"
  by (simp add: summary_statistics_def series_mean_def series_max_def series_min_def notna_def)

text \<open>
  Claim C7, as the code has it.  With fewer than two validated rows no forecast
  is produced: the outcome is the fixed not-enough-data warning of line 112,
  which carries nothing and is never the failure of line 144 that carries an
  exception.  The statistics are those of the raw column, shown before the
  forecast is tried.  For a frame of one row with a valid date and a finite
  value, the validated series is that row, no forecast is produced, the
  maximum and the minimum shown are the value, and the mean shown is the
  float64 quotient by one of the float64 sum of that value alone: the value
  itself, float64 returning the value for both.
\<close>

theorem short_series_no_forecast:
  "(length df < 2 \<longrightarrow>
      forecaster fit estimate df forecast_period = Inl NotEnoughDataPoints \<and>
      (\<forall>e. forecaster fit estimate df forecast_period \<noteq> Inl (ProphetModelFailed e))) \<and>
   (to_datetime parse_date d \<noteq> None \<longrightarrow>
      series_validator parse_date parse_num [(d, Num (Fin v))] = [(to_datetime parse_date d, Fin v)] \<and>
      forecaster fit estimate (series_validator parse_date parse_num [(d, Num (Fin v))]) forecast_period
        = Inl NotEnoughDataPoints \<and>
      max_price (summary_statistics nansum fdiv [Fin v]) = Fin v \<and>
      min_price (summary_statistics nansum fdiv [Fin v]) = Fin v \<and>
      avg_price (summary_statistics nansum fdiv [Fin v]) = fdiv (nansum [Fin v]) 1 \<and>
      (nansum [Fin v] = Fin v \<and> fdiv (Fin v) 1 = Fin v \<longrightarrow>
         summary_statistics nansum fdiv [Fin v]
           = \<lparr>avg_price = Fin v, max_price = Fin v, min_price = Fin v\<rparr>))"
proof (intro conjI impI allI)
  assume "length df < 2"
  then show "forecaster fit estimate df forecast_period = Inl NotEnoughDataPoints"
    by (simp add: forecaster_def)
next
  fix e
  assume "length df < 2"
  then show "forecaster fit estimate df forecast_period \<noteq> Inl (ProphetModelFailed e)"
    by (simp add: forecaster_def)
next
  assume d: "to_datetime parse_date d \<noteq> None"
  then show one: "series_validator parse_date parse_num [(d, Num (Fin v))] = [(to_datetime parse_date d, Fin v)]"
    by (simp add: series_validator_Cons series_validator_Nil)
  show "forecaster fit estimate (series_validator parse_date parse_num [(d, Num (Fin v))]) forecast_period
        = Inl NotEnoughDataPoints"
    unfolding one by (simp add: forecaster_def)
next
  show "max_price (summary_statistics nansum fdiv [Fin v]) = Fin v"
    by (simp add: summary_one_cell)
  show "min_price (summary_statistics nansum fdiv [Fin v]) = Fin v"
    by (simp add: summary_one_cell)
  show "avg_price (summary_statistics nansum fdiv [Fin v]) = fdiv (nansum [Fin v]) 1"
    by (simp add: summary_one_cell)
next
  assume "nansum [Fin v] = Fin v \<and> fdiv (Fin v) 1 = Fin v"
  then show "summary_statistics nansum fdiv [Fin v]
           = \<lparr>avg_price = Fin v, max_price = Fin v, min_price = Fin v\<rparr>"
    by (simp add: summary_statistics_def series_mean_def series_max_def series_min_def notna_def)
qed

theorem short_series_no_forecast_witness:
  "forecaster always_fits flat_estimate [(Some 1, Fin 100)] 60 = Inl NotEnoughDataPoints \<and>
   series_validator no_parse no_parse [(Stamp 1, Num (Fin 100))] = [(Some 1, Fin 100)] \<and>
   forecaster always_fits flat_estimate (series_validator no_parse no_parse [(Stamp 1, Num (Fin 100))]) 60
     = Inl NotEnoughDataPoints \<and>
   summary_statistics whole_sum whole_div [Fin 100]
     = \<lparr>avg_price = Fin 100, max_price = Fin 100, min_price = Fin 100\<rparr>"
proof -
  have h1: "length [(Some (1::int), Fin 100)] < 2" by simp
  have h2: "to_datetime no_parse (Stamp 1 :: string dscell) \<noteq> None" by simp
  have h3: "whole_sum [Fin 100] = Fin 100 \<and> whole_div (Fin 100) 1 = Fin 100"
    by (simp add: whole_sum_def notna_def)
  from short_series_no_forecast [of "[(Some 1, Fin 100)]" always_fits flat_estimate 60
      no_parse "Stamp 1 :: string dscell" no_parse 100 whole_sum whole_div] h1 h2 h3
  have "forecaster always_fits flat_estimate [(Some 1, Fin 100)] 60 = Inl NotEnoughDataPoints \<and>
    series_validator no_parse no_parse [(Stamp 1 :: string dscell, Num (Fin 100))]
      = [(to_datetime no_parse (Stamp 1 :: string dscell), Fin 100)] \<and>
    forecaster always_fits flat_estimate (series_validator no_parse no_parse [(Stamp 1 :: string dscell, Num (Fin 100))]) 60
      = Inl NotEnoughDataPoints \<and>
    summary_statistics whole_sum whole_div [Fin 100]
      = \<lparr>avg_price = Fin 100, max_price = Fin 100, min_price = Fin 100\<rparr>"
    by blast
  then show ?thesis by simp
qed

text \<open>
  Claim C7 as written fails.  The frame with the rows 100 and infinity
  validates to the single row 100.  The outcome of the forecast is then the
  warning of line 112, which is not the failure that carries an exception; and
  the maximum shown with it is infinite, not the 100 of the validated series.
\<close>

theorem short_series_counterexample:
  "series_validator no_parse no_parse [(Stamp 1, Num (Fin 100)), (Stamp 2, Num PosInf)]
     = [(Some 1, Fin 100)] \<and>
   forecaster always_fits flat_estimate
       (series_validator no_parse no_parse [(Stamp 1, Num (Fin 100)), (Stamp 2, Num PosInf)]) 60
     = Inl NotEnoughDataPoints \<and>
   forecaster always_fits flat_estimate
       (series_validator no_parse no_parse [(Stamp 1, Num (Fin 100)), (Stamp 2, Num PosInf)]) 60
     \<noteq> Inl (ProphetModelFailed (FitFailed ())) \<and>
   max_price (summary_statistics whole_sum whole_div [Fin 100, PosInf]) = PosInf \<and>
   max_price (summary_statistics whole_sum whole_div [Fin 100, PosInf]) \<noteq> Fin 100"
  by (simp add: series_validator_Cons series_validator_Nil forecaster_def
      summary_statistics_def series_max_def notna_def)

lemma one_day_pos: "0 < one_day"
  by (simp add: one_day_def)

lemma later: "1 \<le> k \<Longrightarrow> l < l + int k * one_day"
  using one_day_pos by (simp add: mult_pos_pos)

lemma future_dates:
  "take p (filter (\<lambda>d. d > l) (map (\<lambda>k. l + int k * one_day) [0..<p + 1]))
     = map (\<lambda>k. l + int k * one_day) [1..<p + 1]"
proof -
  have split: "[0..<p + 1] = 0 # [1..<p + 1]"
    by (simp add: upt_conv_Cons)
  have later: "\<forall>k\<in>set [1..<p + 1]. l < l + int k * one_day"
  proof
    fix k assume "k \<in> set [1..<p + 1]"
    then have "1 \<le> k" by auto
    then show "l < l + int k * one_day" by (rule later)
  qed
  have "filter (\<lambda>d. d > l) (map (\<lambda>k. l + int k * one_day) [1..<p + 1])
      = map (\<lambda>k. l + int k * one_day) [1..<p + 1]"
    using later by (simp add: filter_map comp_def)
  then have "filter (\<lambda>d. d > l) (map (\<lambda>k. l + int k * one_day) [0..<p + 1])
      = map (\<lambda>k. l + int k * one_day) [1..<p + 1]"
    unfolding split by simp
  then show ?thesis by simp
qed

lemma make_future_dataframe_dates:
  assumes "history \<noteq> []"
  shows "make_future_dataframe history p =
     Inr (history @ map (\<lambda>k. Max (set history) + int k * one_day) [1..<p + 1])"
proof -
  obtain h hs where hist: "history = h # hs"
    using assms by (cases history) auto
  have last: "fold max hs h = Max (set history)"
    unfolding hist by (simp only: Max.set_eq_fold)
  show ?thesis
    unfolding make_future_dataframe_def hist list.case Let_def
    by (simp only: future_dates last [unfolded hist])
qed

lemma ds_predict: "map ds (predict estimate model future) = sort future"
proof -
  have "map ds (predict estimate model future) = map (\<lambda>i. sort future ! i) [0..<length (sort future)]"
    by (simp add: predict_def Let_def comp_def split: prod.split)
  then show ?thesis by (simp only: map_nth)
qed

lemma set_history_dates: "set (history_dates df) = set (List.map_filter fst df)"
  by (simp add: history_dates_def)

lemma validated_dates: "validated df \<Longrightarrow> length (List.map_filter fst df) = length df"
proof (induction df)
  case Nil
  show ?case by (simp add: map_filter_simps)
next
  case (Cons row df)
  then show ?case
    by (cases row) (auto simp add: validated_def map_filter_simps)
qed

lemma count_after_sort:
  "length (filter P (sort xs)) = length (filter P xs)"
  by (simp add: filter_sort)

lemma Min_with_later:
  assumes "finite A" "A \<noteq> {}" "finite B" "\<forall>b\<in>B. Max A \<le> (b::int)"
  shows "Min (A \<union> B) = Min A"
proof (rule Min_eqI)
  show "finite (A \<union> B)" using assms by simp
  show "Min A \<in> A \<union> B" using assms by simp
  fix y assume "y \<in> A \<union> B"
  then show "Min A \<le> y"
  proof
    assume "y \<in> A" then show ?thesis using assms by simp
  next
    assume "y \<in> B"
    then have "Max A \<le> y" using assms by blast
    moreover have "Min A \<le> Max A" using assms by simp
    ultimately show ?thesis by simp
  qed
qed

lemma future_span:
  fixes A :: "int set" and p :: nat
  assumes "finite A" "A \<noteq> {}"
  defines "B \<equiv> set (map (\<lambda>k. Max A + int k * one_day) [1..<p + 1])"
  shows "Min (A \<union> B) = Min A" and "Max (A \<union> B) = Max A + int p * one_day"
proof -
  have B: "B = (\<lambda>k. Max A + int k * one_day) ` {1..p}"
    by (auto simp add: B_def)
  have later: "\<forall>b\<in>B. Max A \<le> b"
    using one_day_pos by (auto simp add: B)
  show "Min (A \<union> B) = Min A"
    using assms(1,2) later by (intro Min_with_later) (simp_all add: B)
  show "Max (A \<union> B) = Max A + int p * one_day"
  proof (rule Max_eqI)
    show "finite (A \<union> B)" using assms(1) by (simp add: B)
    show "Max A + int p * one_day \<in> A \<union> B"
    proof (cases "p = 0")
      case True
      then show ?thesis using assms(1,2) by simp
    next
      case False
      then have "p \<in> {1..p}" by simp
      then show ?thesis unfolding B by blast
    qed
    fix y assume "y \<in> A \<union> B"
    then show "y \<le> Max A + int p * one_day"
    proof
      assume "y \<in> A"
      then have "y \<le> Max A" using assms(1) by simp
      moreover have "0 \<le> int p * one_day" using one_day_pos by simp
      ultimately show ?thesis by linarith
    next
      assume "y \<in> B"
      then obtain k where k: "k \<in> {1..p}" "y = Max A + int k * one_day"
        unfolding B by blast
      then have "int k * one_day \<le> int p * one_day"
        using one_day_pos by (simp add: mult_right_mono)
      with k show ?thesis by simp
    qed
  qed
qed

lemma count_future:
  fixes history :: "int list"
  shows "length (filter (\<lambda>d. d > Max (set history))
      (history @ map (\<lambda>k. Max (set history) + int k * one_day) [1..<p + 1])) = p"
proof -
  have old: "filter (\<lambda>d. d > Max (set history)) history = []"
    by (simp add: filter_empty_conv not_less)
  have "\<forall>k\<in>set [1..<p + 1]. Max (set history) < Max (set history) + int k * one_day"
  proof
    fix k assume "k \<in> set [1..<p + 1]"
    then have "1 \<le> k" by auto
    then show "Max (set history) < Max (set history) + int k * one_day" by (rule later)
  qed
  then have new: "filter (\<lambda>d. d > Max (set history)) (map (\<lambda>k. Max (set history) + int k * one_day) [1..<p + 1])
      = map (\<lambda>k. Max (set history) + int k * one_day) [1..<p + 1]"
    by (simp add: filter_map comp_def)
  show ?thesis
    unfolding filter_append old new by simp
qed

text \<open>
  Claim C6.  For a validated frame of at least two rows on which the fit
  succeeds, and every horizon, a forecast is produced; its dates are in
  ascending order, the earliest is the earliest date of the series, the latest
  is the latest date of the series plus the horizon in days, and exactly as many
  rows as the horizon are dated after the last date of the series.
\<close>

theorem forecast_horizon:
  fixes fit :: "(timestamp option \<times> fl) list \<Rightarrow> 'x + 'm"
  assumes "validated df" and "2 \<le> length df" and "fit df = Inr model"
  shows "\<exists>fc. forecaster fit estimate df forecast_period = Inr fc \<and>
      sorted (map ds fc) \<and>
      Min (set (map ds fc)) = Min (set (List.map_filter fst df)) \<and>
      Max (set (map ds fc)) = Max (set (List.map_filter fst df)) + int forecast_period * one_day \<and>
      length (filter (\<lambda>r. ds r > Max (set (List.map_filter fst df))) fc) = forecast_period"
proof -
  define history where "history = history_dates df"
  define future where
    "future = history @ map (\<lambda>k. Max (set history) + int k * one_day) [1..<forecast_period + 1]"
  define fc where "fc = predict estimate model future"
  have len: "length (List.map_filter fst df) = length df"
    using assms(1) by (rule validated_dates)
  with assms(2) have "List.map_filter fst df \<noteq> []" by auto
  then have "set history \<noteq> {}"
    by (simp add: history_def set_history_dates)
  then have ne: "history \<noteq> []" by auto
  have sh: "set history = set (List.map_filter fst df)"
    by (simp add: history_def set_history_dates)
  have mk: "(make_future_dataframe history forecast_period :: 'x exn + timestamp list) = Inr future"
    unfolding future_def using ne by (rule make_future_dataframe_dates)
  have run: "forecaster fit estimate df forecast_period = Inr fc"
    using assms(2,3) mk [unfolded history_def]
    by (simp add: forecaster_def fc_def history_def)
  have dates: "map ds fc = sort future"
    by (simp add: fc_def ds_predict)
  have sets: "set (map ds fc) = set history \<union> set (map (\<lambda>k. Max (set history) + int k * one_day) [1..<forecast_period + 1])"
    unfolding dates by (simp add: future_def)
  have fin: "finite (set history)" "set history \<noteq> {}"
    using ne by simp_all
  have mn: "Min (set (map ds fc)) = Min (set history)"
    unfolding sets using fin by (rule future_span(1))
  have mx: "Max (set (map ds fc)) = Max (set history) + int forecast_period * one_day"
    unfolding sets using fin by (rule future_span(2))
  have "length (filter (\<lambda>r. ds r > Max (set history)) fc)
      = length (filter (\<lambda>d. d > Max (set history)) (map ds fc))"
    by (simp add: filter_map comp_def)
  also have "\<dots> = length (filter (\<lambda>d. d > Max (set history)) future)"
    unfolding dates by (rule count_after_sort)
  also have "\<dots> = forecast_period"
    unfolding future_def by (rule count_future)
  finally have cnt: "length (filter (\<lambda>r. ds r > Max (set history)) fc) = forecast_period" .
  have "sorted (map ds fc)"
    unfolding dates by simp
  with run mn mx cnt show ?thesis
    unfolding sh by blast
qed

theorem forecast_horizon_witness:
  "validated two_days \<and> 2 \<le> length two_days \<and> always_fits two_days = Inr () \<and>
   (\<exists>fc. forecaster always_fits flat_estimate two_days 3 = Inr fc \<and>
      sorted (map ds fc) \<and>
      Min (set (map ds fc)) = 0 \<and>
      Max (set (map ds fc)) = 4 * 86400000000000 \<and>
      length (filter (\<lambda>r. ds r > 86400000000000) fc) = 3)"
proof -
  have h1: "validated two_days" by (simp add: two_days_def validated_def)
  have h2: "2 \<le> length two_days" by (simp add: two_days_def)
  have h3: "always_fits two_days = Inr ()" by (simp add: always_fits_def)
  have ts: "List.map_filter fst two_days = [0, 86400000000000]"
    by (simp add: two_days_def map_filter_simps)
  from forecast_horizon [of two_days always_fits "()" flat_estimate 3, OF h1 h2 h3]
  have "\<exists>fc. forecaster always_fits flat_estimate two_days 3 = Inr fc \<and>
      sorted (map ds fc) \<and>
      Min (set (map ds fc)) = 0 \<and>
      Max (set (map ds fc)) = 4 * 86400000000000 \<and>
      length (filter (\<lambda>r. ds r > 86400000000000) fc) = 3"
    unfolding ts by (simp add: one_day_def)
  with h1 h2 h3 show ?thesis by blast
qed

end
